theory Spec2Isabelle
  imports Main "HOL-Library.Word"
begin

unbundle bit_operations_syntax

section \<open>Data model of package tlv\<close>

type_synonym byte = "8 word"
type_synonym int32 = "32 word"

text \<open>
  The three error sentinels of the package (\<open>ErrTLVRead\<close>, \<open>ErrTLVWrite\<close>,
  \<open>ErrTypeNotFound\<close>), the two end-of-stream errors of package \<open>io\<close> that the code
  meets (\<open>io.EOF\<close>, \<open>io.ErrUnexpectedEOF\<close>) and any other error of an underlying
  reader or writer, numbered.
\<close>

datatype error = ErrTLVRead | ErrTLVWrite | ErrTypeNotFound | EOF | ErrUnexpectedEOF | ErrIO nat

text \<open>A Go call either returns or panics at run time.\<close>

datatype 'a outcome = Returns 'a | Panics

text \<open>
  \<open>type object struct { typ byte; len int32; val []byte }\<close>. The field \<open>len\<close> is a
  32-bit word read as two's complement by \<open>sint\<close>.
\<close>

record object =
  "typ" :: byte
  len :: int32
  val :: "byte list"

text \<open>
  \<open>Equal\<close> takes two values of the interface \<open>TLV\<close>, each of which may be nil
  (\<open>None\<close>); of one that is not nil it uses the three methods only, whatever its
  type, so the record holds what they return. \<open>bytes.Equal\<close> compares contents, so
  it is equality of lists.
\<close>

fun Equal :: "object option \<Rightarrow> object option \<Rightarrow> bool" where
  "Equal None tlv2 = (tlv2 = None)"
| "Equal (Some tlv1) None = False"
| "Equal (Some tlv1) (Some tlv2) =
     (if typ tlv1 \<noteq> typ tlv2 then False
      else if len tlv1 \<noteq> len tlv2 then False
      else if val tlv1 \<noteq> val tlv2 then False
      else True)"

subsection \<open>Built-ins: \<open>make\<close> and \<open>copy\<close>\<close>

text \<open>\<open>make([]byte, n)\<close> panics for a negative \<open>n\<close>, and gives \<open>n\<close> zero bytes otherwise.\<close>

definition make_bytes :: "int \<Rightarrow> byte list outcome" where
  "make_bytes n = (if n < 0 then Panics else Returns (replicate (nat n) 0))"

text \<open>\<open>copy(dst, src)\<close> overwrites the first \<open>min(len(dst), len(src))\<close> bytes of \<open>dst\<close>.\<close>

definition copy_bytes :: "byte list \<Rightarrow> byte list \<Rightarrow> byte list" where
  "copy_bytes dst src = (let n = min (length dst) (length src) in take n src @ drop n dst)"

subsection \<open>\<open>encoding/binary\<close>: big-endian 32-bit integers\<close>

text \<open>\<open>binary.BigEndian.PutUint32\<close> and \<open>binary.BigEndian.Uint32\<close>; the latter panics on
  a slice shorter than four bytes.\<close>

definition PutUint32 :: "int32 \<Rightarrow> byte list" where
  "PutUint32 v = [ucast (drop_bit 24 v), ucast (drop_bit 16 v), ucast (drop_bit 8 v), ucast v]"

fun Uint32 :: "byte list \<Rightarrow> int32 outcome" where
  "Uint32 (b0 # b1 # b2 # b3 # bs) =
     Returns (ucast b3 OR push_bit 8 (ucast b2) OR push_bit 16 (ucast b1) OR push_bit 24 (ucast b0))"
| "Uint32 bs = Panics"

subsection \<open>Constructor\<close>

text \<open>
  \<open>New\<close>: \<open>int32(len(val))\<close> truncates the length to 32 bits; the value buffer is made
  with that length and the argument copied into it.
\<close>

definition New :: "byte \<Rightarrow> byte list \<Rightarrow> object outcome" where
  "New t v =
     (let l = (word_of_int (int (length v)) :: int32) in
      case make_bytes (sint l) of
        Panics \<Rightarrow> Panics
      | Returns buf \<Rightarrow> Returns \<lparr>typ = t, len = l, val = copy_bytes buf v\<rparr>)"

section \<open>Writers\<close>

text \<open>
  An \<open>io.Writer\<close> is any implementation of \<open>Write(p) (n int, err error)\<close>: a function
  from the writer's state and the bytes offered to the count reported, the error and
  the new state.
\<close>

type_synonym 'w writer = "'w \<Rightarrow> byte list \<Rightarrow> (int \<times> error option) \<times> 'w"

text \<open>\<open>bytes.Buffer\<close> as a writer: it appends all of \<open>p\<close> and reports no error.\<close>

definition Buffer_Write :: "byte list writer" where
  "Buffer_Write buf p = ((int (length p), None), buf @ p)"

text \<open>\<open>binary.Write\<close> on a fixed-size value encodes it and makes one \<open>Write\<close> call,
  of which it returns the error only.\<close>

definition binary_Write :: "'w writer \<Rightarrow> 'w \<Rightarrow> byte list \<Rightarrow> error option \<times> 'w" where
  "binary_Write w s bs = (case w s bs of ((n, err), s') \<Rightarrow> (err, s'))"

definition WriteObject :: "'w writer \<Rightarrow> object \<Rightarrow> 'w \<Rightarrow> error option \<times> 'w" where
  "WriteObject w tlv s0 =
     (case binary_Write w s0 [typ tlv] of
        (Some err, s1) \<Rightarrow> (Some err, s1)
      | (None, s1) \<Rightarrow>
          (case binary_Write w s1 (PutUint32 (len tlv)) of
             (Some err, s2) \<Rightarrow> (Some err, s2)
           | (None, s2) \<Rightarrow>
               (case w s2 (val tlv) of
                  ((n, Some err), s3) \<Rightarrow> (Some err, s3)
                | ((n, None), s3) \<Rightarrow>
                    if (word_of_int n :: int32) \<noteq> len tlv then (Some ErrTLVWrite, s3)
                    else (None, s3))))"

text \<open>\<open>ToBytes\<close> writes into an empty buffer and returns its contents and the error.\<close>

definition ToBytes :: "object \<Rightarrow> byte list \<times> error option" where
  "ToBytes tlv = (case WriteObject Buffer_Write tlv [] of (err, buf) \<Rightarrow> (buf, err))"

section \<open>Readers\<close>

text \<open>
  An \<open>io.Reader\<close> is any implementation of \<open>Read(p) (n int, err error)\<close>: a function
  from the reader's state and \<open>len(p)\<close> to the bytes delivered, the error and the new
  state. The reader's contract is \<open>0 \<le> n \<le> len(p)\<close>, so a call keeps at most
  \<open>len(p)\<close> of the bytes.
\<close>

type_synonym 'r reader = "'r \<Rightarrow> nat \<Rightarrow> (byte list \<times> error option) \<times> 'r"

definition call_Read :: "'r reader \<Rightarrow> 'r \<Rightarrow> nat \<Rightarrow> (byte list \<times> error option) \<times> 'r" where
  "call_Read rd r n = (case rd r n of ((bs, err), r') \<Rightarrow> ((take n bs, err), r'))"

text \<open>
  \<open>bytes.Buffer\<close> as a reader, its state the unread bytes: an empty buffer answers
  \<open>io.EOF\<close>, unless \<open>len(p)\<close> is zero; otherwise it hands out up to \<open>len(p)\<close> bytes.
\<close>

definition Buffer_Read :: "byte list reader" where
  "Buffer_Read buf n =
     (if buf = [] then (if n = 0 then (([], None), []) else (([], Some EOF), []))
      else ((take n buf, None), drop n buf))"

text \<open>
  \<open>bytes.Reader\<close> as a reader, its state the unread bytes: at the end of the data it
  answers \<open>io.EOF\<close>, also when \<open>len(p)\<close> is zero.
\<close>

definition Reader_Read :: "byte list reader" where
  "Reader_Read buf n =
     (if buf = [] then (([], Some EOF), []) else ((take n buf, None), drop n buf))"

text \<open>
  \<open>io.ReadFull(r, buf)\<close> is \<open>io.ReadAtLeast(r, buf, len(buf))\<close>: it calls \<open>Read\<close> on
  the rest of the buffer while fewer than \<open>min\<close> bytes are in and no error has come.
  A reader that keeps returning nothing without an error keeps it looping, which is
  the result \<open>None\<close>.
\<close>

partial_function (option) ReadAtLeast_loop ::
  "'r reader \<Rightarrow> nat \<Rightarrow> nat \<Rightarrow> byte list \<Rightarrow> error option \<Rightarrow> 'r
     \<Rightarrow> ((byte list \<times> error option) \<times> 'r) option"
where
  "ReadAtLeast_loop rd sz m buf err r =
     (if length buf < m \<and> err = None then
        (case call_Read rd r (sz - length buf) of
           ((bs, err'), r') \<Rightarrow> ReadAtLeast_loop rd sz m (buf @ bs) err' r')
      else Some ((buf, err), r))"

definition ReadFull :: "'r reader \<Rightarrow> nat \<Rightarrow> 'r \<Rightarrow> ((byte list \<times> error option) \<times> 'r) option" where
  "ReadFull rd sz r =
     (case ReadAtLeast_loop rd sz sz [] None r of
        None \<Rightarrow> None
      | Some ((buf, err), r') \<Rightarrow>
          Some ((buf,
                 if length buf \<ge> sz then None
                 else if length buf > 0 \<and> err = Some EOF then Some ErrUnexpectedEOF
                 else err), r'))"

text \<open>
  What \<open>ReadObject\<close> returns: \<open>return nil, err\<close> and \<open>return tlv, ErrTLVRead\<close> are
  \<open>Inl\<close> (the error is not nil), \<open>return tlv, nil\<close> is \<open>Inr\<close>.
\<close>

type_synonym read_result = "(object option \<times> error) + object"

definition ReadObject :: "'r reader \<Rightarrow> 'r \<Rightarrow> (read_result \<times> 'r) outcome option" where
  "ReadObject rd r0 =
     (case ReadFull rd 1 r0 of
        None \<Rightarrow> None
      | Some ((bs1, Some err), r1) \<Rightarrow> Some (Returns (Inl (None, err), r1))
      | Some ((bs1, None), r1) \<Rightarrow>
          (case bs1 of
             [] \<Rightarrow> Some Panics
           | b # bs1' \<Rightarrow>
          (case ReadFull rd 4 r1 of
             None \<Rightarrow> None
           | Some ((bs4, Some err), r2) \<Rightarrow> Some (Returns (Inl (None, err), r2))
           | Some ((bs4, None), r2) \<Rightarrow>
               (case Uint32 bs4 of
                  Panics \<Rightarrow> Some Panics
                | Returns l \<Rightarrow>
                    (case make_bytes (sint l) of
                       Panics \<Rightarrow> Some Panics
                     | Returns buf \<Rightarrow>
                         (case call_Read rd r2 (length buf) of
                            ((bs, Some err), r3) \<Rightarrow> Some (Returns (Inl (None, err), r3))
                          | ((bs, None), r3) \<Rightarrow>
                              (let tlv = \<lparr>typ = b, len = l, val = copy_bytes buf bs\<rparr> in
                               if (word_of_int (int (length bs)) :: int32) \<noteq> l
                               then Some (Returns (Inl (Some tlv, ErrTLVRead), r3))
                               else Some (Returns (Inr tlv, r3)))))))))"

text \<open>\<open>FromBytes\<close> reads one object from a buffer holding the data.\<close>

definition FromBytes :: "byte list \<Rightarrow> read_result outcome option" where
  "FromBytes data =
     (case ReadObject Buffer_Read data of
        None \<Rightarrow> None
      | Some Panics \<Rightarrow> Some Panics
      | Some (Returns (res, r)) \<Rightarrow> Some (Returns res))"

section \<open>The list of objects\<close>

text \<open>
  \<open>List\<close> wraps a \<open>container/list\<close>, whose elements hold values of any type in
  insertion order; \<open>PushBack\<close> appends at the end, \<open>Front\<close> and \<open>Next\<close> walk it from
  the head. \<open>AddObject\<close> puts a value of the interface \<open>TLV\<close> there, which is nil, or a
  \<open>*object\<close> of this package, or a value of another type that implements \<open>TLV\<close>; of
  the last, the record holds what its methods \<open>Type\<close>, \<open>Length\<close> and \<open>Value\<close> return.
  The type assertion \<open>e.Value.(*object)\<close> panics on every element but a \<open>*object\<close>,
  and \<open>e.Value.(TLV)\<close> panics on nil.
\<close>

datatype TLV = Nil_TLV | Object object | Other object

type_synonym tlv_list = "TLV list"

definition NewList :: tlv_list where
  "NewList = []"

definition Length :: "tlv_list \<Rightarrow> int32" where
  "Length lst = word_of_int (int (length lst))"













definition Add :: "tlv_list \<Rightarrow> byte \<Rightarrow> byte list \<Rightarrow> tlv_list outcome" where
  "Add lst t v =
     (case New t v of Panics \<Rightarrow> Panics | Returns obj \<Rightarrow> Returns (lst @ [Object obj]))"

text \<open>
  \<open>Write\<close> writes the elements front to back and stops at the first error.
  \<open>WriteObject\<close> reads its argument through the three methods only, so an element of
  another type is written like an object with the same three results. The writer
  keeps what it was given before a panic.
\<close>

fun Write :: "'w writer \<Rightarrow> tlv_list \<Rightarrow> 'w \<Rightarrow> error option outcome \<times> 'w" where
  "Write w [] s = (Returns None, s)"
| "Write w (e # es) s =
     (case e of
        Nil_TLV \<Rightarrow> (Panics, s)
      | Object obj \<Rightarrow>
          (case WriteObject w obj s of
             (Some err, s') \<Rightarrow> (Returns (Some err), s')
           | (None, s') \<Rightarrow> Write w es s')
      | Other x \<Rightarrow>
          (case WriteObject w x s of
             (Some err, s') \<Rightarrow> (Returns (Some err), s')
           | (None, s') \<Rightarrow> Write w es s'))"

text \<open>
  \<open>Read\<close> reads objects until \<open>ReadObject\<close> returns an error, and turns \<open>io.EOF\<close>
  into nil. On a reader that never ends the loop does not return (\<open>None\<close>).
\<close>

partial_function (option) Read_loop ::
  "'r reader \<Rightarrow> tlv_list \<Rightarrow> 'r \<Rightarrow> ((tlv_list \<times> error option) \<times> 'r) outcome option"
where
  "Read_loop rd lst r =
     (case ReadObject rd r of
        None \<Rightarrow> None
      | Some Panics \<Rightarrow> Some Panics
      | Some (Returns (Inl (partial, err), r')) \<Rightarrow>
          Some (Returns ((lst, if err = EOF then None else Some err), r'))
      | Some (Returns (Inr tlv, r')) \<Rightarrow> Read_loop rd (lst @ [Object tlv]) r')"

definition Read :: "'r reader \<Rightarrow> 'r \<Rightarrow> ((tlv_list \<times> error option) \<times> 'r) outcome option" where
  "Read rd r = Read_loop rd NewList r"

text \<open>
  The invariant of the data model: the length field, read as a signed 32-bit integer,
  is the number of value bytes.
\<close>

definition length_is_len :: "object \<Rightarrow> bool" where
  "length_is_len tlv = (sint (len tlv) = int (length (val tlv)))"

text \<open>The wire form of one object: type byte, big-endian length, value.\<close>

definition wire :: "object \<Rightarrow> byte list" where
  "wire tlv = typ tlv # PutUint32 (len tlv) @ val tlv"

section \<open>Facts about the byte order, the buffer and the loops\<close>

lemma Uint32_PutUint32: "Uint32 (PutUint32 w) = Returns w"
proof -
  have "ucast (ucast w :: byte) OR push_bit 8 (ucast (ucast (drop_bit 8 w) :: byte))
          OR push_bit 16 (ucast (ucast (drop_bit 16 w) :: byte))
          OR push_bit 24 (ucast (ucast (drop_bit 24 w) :: byte)) = w"
  proof (rule bit_word_eqI)
    fix n :: nat
    assume "n < LENGTH(32)"
    then consider "n < 8" | "8 \<le> n" "n < 16" | "16 \<le> n" "n < 24" | "24 \<le> n" "n < 32"
      by fastforce
    then show "bit (ucast (ucast w :: byte) OR push_bit 8 (ucast (ucast (drop_bit 8 w) :: byte))
          OR push_bit 16 (ucast (ucast (drop_bit 16 w) :: byte))
          OR push_bit 24 (ucast (ucast (drop_bit 24 w) :: byte)) :: int32) n = bit w n"
      by cases (auto simp add: bit_simps)
  qed
  then show ?thesis by (simp add: PutUint32_def)
qed

lemma sint_length: "length v < 2 ^ 31 \<Longrightarrow> sint (word_of_int (int (length v)) :: int32) = int (length v)"
proof -
  assume a: "length v < 2 ^ 31"
  have "sint (word_of_int k :: int32) = k" if "0 \<le> k" "k < 2 ^ 31" for k :: int
    using that by (simp only: sint_sbintrunc') (simp add: signed_take_bit_int_eq_self)
  from this [of "int (length v)"] a show ?thesis by simp
qed

lemma ReadAtLeast_loop_done:
  "\<not> (length buf < m \<and> err = None) \<Longrightarrow> ReadAtLeast_loop rd sz m buf err r = Some ((buf, err), r)"
  by (subst ReadAtLeast_loop.simps) auto

lemma ReadAtLeast_loop_step:
  "length buf < m \<Longrightarrow> ReadAtLeast_loop rd sz m buf None r =
     (case call_Read rd r (sz - length buf) of
        ((bs, err'), r') \<Rightarrow> ReadAtLeast_loop rd sz m (buf @ bs) err' r')"
  by (subst ReadAtLeast_loop.simps) simp

lemma ReadFull_Buffer_enough:
  "0 < n \<Longrightarrow> n \<le> length buf \<Longrightarrow> ReadFull Buffer_Read n buf = Some ((take n buf, None), drop n buf)"
  by (auto simp add: ReadFull_def ReadAtLeast_loop_step ReadAtLeast_loop_done call_Read_def Buffer_Read_def)

lemma ReadFull_Buffer_empty:
  "0 < n \<Longrightarrow> ReadFull Buffer_Read n [] = Some (([], Some EOF), [])"
  by (auto simp add: ReadFull_def ReadAtLeast_loop_step ReadAtLeast_loop_done call_Read_def Buffer_Read_def)

lemma ReadFull_Buffer_short:
  "buf \<noteq> [] \<Longrightarrow> length buf < n \<Longrightarrow> ReadFull Buffer_Read n buf = Some ((buf, Some ErrUnexpectedEOF), [])"
  by (auto simp add: ReadFull_def ReadAtLeast_loop_step ReadAtLeast_loop_done call_Read_def Buffer_Read_def)

lemma PutUint32_four: "\<exists>a b c d. PutUint32 l = [a, b, c, d]"
  by (simp add: PutUint32_def)

lemma word_of_length: "length_is_len tlv \<Longrightarrow> (word_of_nat (length (val tlv)) :: int32) = len tlv"
proof -
  assume "length_is_len tlv"
  then have "(word_of_int (int (length (val tlv))) :: int32) = word_of_int (sint (len tlv))"
    by (simp only: length_is_len_def)
  then show ?thesis by simp
qed

lemma copy_bytes_fresh: "copy_bytes (replicate (length bs) 0) bs = bs"
  by (simp add: copy_bytes_def)

lemma call_Read_Buffer_value:
  "call_Read Buffer_Read (v @ rest) (length v) = ((v, None), rest)"
  by (cases "v @ rest = []") (auto simp add: call_Read_def Buffer_Read_def)

lemma WriteObject_Buffer:
  assumes "length_is_len tlv"
  shows "WriteObject Buffer_Write tlv buf = (None, buf @ wire tlv)"
  using word_of_length [OF assms]
  by (simp add: WriteObject_def binary_Write_def Buffer_Write_def wire_def)

lemma ReadObject_Buffer_wire:
  assumes "length_is_len tlv"
  shows "ReadObject Buffer_Read (wire tlv @ rest) = Some (Returns (Inr tlv, rest))"
proof -
  obtain a b c d where p: "PutUint32 (len tlv) = [a, b, c, d]"
    using PutUint32_four by blast
  have u: "Uint32 [a, b, c, d] = Returns (len tlv)"
    using Uint32_PutUint32 [of "len tlv"] by (simp only: p)
  have m: "make_bytes (sint (len tlv)) = Returns (replicate (length (val tlv)) 0)"
    using assms by (simp add: make_bytes_def length_is_len_def)
  have r1: "ReadFull Buffer_Read 1 (wire tlv @ rest)
              = Some (([typ tlv], None), [a, b, c, d] @ val tlv @ rest)"
    by (simp add: ReadFull_Buffer_enough wire_def p)
  have r4: "ReadFull Buffer_Read 4 ([a, b, c, d] @ val tlv @ rest)
              = Some (([a, b, c, d], None), val tlv @ rest)"
    by (simp add: ReadFull_Buffer_enough)
  show ?thesis
    unfolding ReadObject_def r1
    using u
    by (simp add: r4 [simplified] m call_Read_Buffer_value copy_bytes_fresh word_of_length [OF assms] Let_def)
qed

lemma ReadObject_Buffer_empty:
  "ReadObject Buffer_Read [] = Some (Returns (Inl (None, EOF), []))"
  by (simp add: ReadObject_def ReadFull_Buffer_empty)

lemma New_small:
  assumes "length v < 2 ^ 31"
  shows "New t v = Returns \<lparr>typ = t, len = word_of_nat (length v), val = v\<rparr>"
  using sint_length [OF assms]
  by (simp add: New_def make_bytes_def copy_bytes_def)

lemma New_length_is_len: "New t v = Returns tlv \<Longrightarrow> length_is_len tlv"
  by (auto simp add: New_def make_bytes_def copy_bytes_def length_is_len_def Let_def
      split: if_splits)

lemma ReadObject_length_is_len:
  "ReadObject rd r = Some (Returns (Inr tlv, r')) \<Longrightarrow> length_is_len tlv"
  by (auto simp add: ReadObject_def make_bytes_def copy_bytes_def length_is_len_def Let_def
      split: option.splits prod.splits list.splits outcome.splits if_splits)

lemma ToBytes_wire: "length_is_len tlv \<Longrightarrow> ToBytes tlv = (wire tlv, None)"
  by (simp add: ToBytes_def WriteObject_Buffer)

lemma FromBytes_wire: "length_is_len tlv \<Longrightarrow> FromBytes (wire tlv) = Some (Returns (Inr tlv))"
  using ReadObject_Buffer_wire [of tlv "[]"] by (simp add: FromBytes_def)

lemma word_of_count:
  assumes "length_is_len tlv" "0 \<le> n" "n \<le> int (length (val tlv))"
  shows "((word_of_int n :: int32) = len tlv) = (n = int (length (val tlv)))"
proof
  assume e: "(word_of_int n :: int32) = len tlv"
  have b: "sint (len tlv) < 2 ^ 31"
    using sint_lt [of "len tlv"] by simp
  with assms have "n < 2 ^ 31"
    by (simp add: length_is_len_def)
  with assms(2) have "sint (word_of_int n :: int32) = n"
    by (simp only: sint_sbintrunc') (simp add: signed_take_bit_int_eq_self)
  with e assms(1) show "n = int (length (val tlv))"
    by (simp add: length_is_len_def)
next
  assume "n = int (length (val tlv))"
  with word_of_length [OF assms(1)] show "(word_of_int n :: int32) = len tlv"
    by simp
qed

lemma Write_Buffer:
  "list_all length_is_len os \<Longrightarrow>
   Write Buffer_Write (map Object os) buf = (Returns None, buf @ concat (map wire os))"
  by (induction os arbitrary: buf) (simp_all add: WriteObject_Buffer)

lemma Read_loop_Buffer:
  "list_all length_is_len os \<Longrightarrow>
   Read_loop Buffer_Read acc (concat (map wire os))
     = Some (Returns ((acc @ map Object os, None), []))"
proof (induction os arbitrary: acc)
  case Nil
  show ?case
    by (subst Read_loop.simps) (simp add: ReadObject_Buffer_empty)
next
  case (Cons tlv os)
  then have w: "length_is_len tlv" and ws: "list_all length_is_len os"
    by simp_all
  show ?case
    by (subst Read_loop.simps) (simp add: ReadObject_Buffer_wire [OF w] Cons.IH [OF ws])
qed

lemma list_round_trip_Buffer:
  assumes "list_all length_is_len os"
  shows "Write Buffer_Write (map Object os) [] = (Returns None, concat (map wire os)) \<and>
         Read Buffer_Read (concat (map wire os)) = Some (Returns ((map Object os, None), []))"
  using Write_Buffer [OF assms, of "[]"] Read_loop_Buffer [OF assms, of "[]"]
  by (simp add: Read_def NewList_def)

lemma ReadFull_Reader_enough:
  "0 < n \<Longrightarrow> n \<le> length buf \<Longrightarrow>
   ReadFull Reader_Read n buf = Some ((take n buf, None), drop n buf)"
  by (auto simp add: ReadFull_def ReadAtLeast_loop_step ReadAtLeast_loop_done call_Read_def
      Reader_Read_def)

lemma ReadFull_Reader_empty:
  "0 < n \<Longrightarrow> ReadFull Reader_Read n [] = Some (([], Some EOF), [])"
  by (auto simp add: ReadFull_def ReadAtLeast_loop_step ReadAtLeast_loop_done call_Read_def
      Reader_Read_def)









lemma Equal_Some: "Equal (Some a) (Some b) = (typ a = typ b \<and> len a = len b \<and> val a = val b)"
  by simp

section \<open>The claims\<close>

text \<open>
  C1 (round trip). For every type byte and every value whose length fits a signed
  32-bit integer, \<open>New\<close> returns an object, \<open>ToBytes\<close> encodes it without error,
  and \<open>FromBytes\<close> of those bytes returns, without error, an object that \<open>Equal\<close>
  accepts as the same: same type, same length, same value bytes.
\<close>

theorem round_trip:
  assumes "length v < 2 ^ 31"
  shows "\<exists>tlv data tlv'.
           New t v = Returns tlv \<and> ToBytes tlv = (data, None) \<and>
           FromBytes data = Some (Returns (Inr tlv')) \<and>
           Equal (Some tlv') (Some tlv) \<and>
           typ tlv' = t \<and> sint (len tlv') = int (length v) \<and> val tlv' = v"
proof -
  let ?tlv = "\<lparr>typ = t, len = word_of_nat (length v), val = v\<rparr>"
  have n: "New t v = Returns ?tlv"
    by (rule New_small [OF assms])
  have i: "length_is_len ?tlv"
    by (rule New_length_is_len [OF n])
  have "sint (len ?tlv) = int (length v)"
    using i by (simp add: length_is_len_def)
  with n ToBytes_wire [OF i] FromBytes_wire [OF i] show ?thesis
    by (intro exI [of _ ?tlv] exI [of _ "wire ?tlv"]) simp
qed

theorem round_trip_witness:
  "length [97, 98 :: byte] < 2 ^ 31 \<and>
   New 1 [97, 98] = Returns \<lparr>typ = 1, len = 2, val = [97, 98]\<rparr> \<and>
   ToBytes \<lparr>typ = 1, len = 2, val = [97, 98]\<rparr> = ([1, 0, 0, 0, 2, 97, 98], None) \<and>
   FromBytes [1, 0, 0, 0, 2, 97, 98] = Some (Returns (Inr \<lparr>typ = 1, len = 2, val = [97, 98]\<rparr>))"
proof -
  have h: "length [97, 98 :: byte] < 2 ^ 31" by simp
  from round_trip [OF h, of 1] obtain tlv data tlv' where
    r: "New 1 [97, 98] = Returns tlv" "ToBytes tlv = (data, None)"
       "FromBytes data = Some (Returns (Inr tlv'))" "Equal (Some tlv') (Some tlv)"
    by blast
  have n: "New 1 [97, 98] = Returns \<lparr>typ = 1, len = 2, val = [97, 98]\<rparr>"
    by (simp add: New_def make_bytes_def copy_bytes_def)
  have t: "ToBytes \<lparr>typ = 1, len = 2, val = [97, 98]\<rparr> = ([1, 0, 0, 0, 2, 97, 98], None)"
    by (simp add: ToBytes_def WriteObject_def binary_Write_def Buffer_Write_def PutUint32_def)
  from r n t have "tlv = \<lparr>typ = 1, len = 2, val = [97, 98]\<rparr>" "data = [1, 0, 0, 0, 2, 97, 98]"
    by simp_all
  with r have "tlv' = \<lparr>typ = 1, len = 2, val = [97, 98]\<rparr>"
    by (cases tlv') (simp split: if_splits)
  with r n t h \<open>data = _\<close> show ?thesis by simp
qed

text \<open>
  C2 (list round trip). The claim lets \<open>Read\<close> run over the bytes that \<open>Write\<close>
  produced, from any reader. Evaluated on the code: two objects, the second with an
  empty value, are written without error as twelve bytes. From a \<open>bytes.Reader\<close> over
  those bytes, the read of the zero-length value at the end of the data returns
  \<open>io.EOF\<close>, \<open>ReadObject\<close> drops the object it has just read and returns that error,
  and \<open>Read\<close> turns it into nil: one object comes back, and no error. From a
  \<open>bytes.Buffer\<close> over the same bytes both objects come back.
\<close>

theorem list_round_trip_Reader:
  "Write Buffer_Write
     [Object \<lparr>typ = 1, len = 2, val = [97, 98]\<rparr>, Object \<lparr>typ = 2, len = 0, val = []\<rparr>] []
     = (Returns None, [1, 0, 0, 0, 2, 97, 98, 2, 0, 0, 0, 0]) \<and>
   Read Reader_Read [1, 0, 0, 0, 2, 97, 98, 2, 0, 0, 0, 0]
     = Some (Returns (([Object \<lparr>typ = 1, len = 2, val = [97, 98]\<rparr>], None), [])) \<and>
   Read Buffer_Read [1, 0, 0, 0, 2, 97, 98, 2, 0, 0, 0, 0]
     = Some (Returns (([Object \<lparr>typ = 1, len = 2, val = [97, 98]\<rparr>,
                        Object \<lparr>typ = 2, len = 0, val = []\<rparr>], None), []))"
proof -
  let ?a = "\<lparr>typ = 1, len = 2, val = [97, 98]\<rparr>"
  let ?b = "\<lparr>typ = 2, len = 0, val = []\<rparr>"
  have h: "list_all length_is_len [?a, ?b]"
    by (simp add: length_is_len_def)
  have d: "concat (map wire [?a, ?b]) = [1, 0, 0, 0, 2, 97, 98, 2, 0, 0, 0, 0]"
    by (simp add: wire_def PutUint32_def)
  have u2: "Uint32 [0, 0, 0, 2] = Returns 2" and u0: "Uint32 [0, 0, 0, 0] = Returns 0"
    by simp_all
  have o1: "ReadObject Reader_Read [1, 0, 0, 0, 2, 97, 98, 2, 0, 0, 0, 0]
              = Some (Returns (Inr ?a, [2, 0, 0, 0, 0]))"
    by (simp add: ReadObject_def ReadFull_Reader_enough make_bytes_def call_Read_def
        Reader_Read_def copy_bytes_def)
  have o2: "ReadObject Reader_Read [2, 0, 0, 0, 0] = Some (Returns (Inl (None, EOF), []))"
    by (simp add: ReadObject_def ReadFull_Reader_enough make_bytes_def call_Read_def
        Reader_Read_def)
  have r: "Read Reader_Read [1, 0, 0, 0, 2, 97, 98, 2, 0, 0, 0, 0]
             = Some (Returns (([Object ?a], None), []))"
    unfolding Read_def NewList_def
    by (subst Read_loop.simps, simp add: o1, subst Read_loop.simps, simp add: o2)
  from list_round_trip_Buffer [OF h, unfolded d] r show ?thesis
    by simp
qed

text \<open>
  C3 (partial decode on truncation). The claim wants a non-nil error from \<open>Read\<close>
  whenever a complete object is followed by a cut-off header. Evaluated on the code:
  when one byte of the second header is present, the type byte is read, the read of
  the length finds the buffer empty and returns \<open>io.EOF\<close>, and \<open>Read\<close> turns that into
  nil, the same answer as at a clean end of the stream; only with two bytes (up to
  four) of the header present does \<open>io.ErrUnexpectedEOF\<close> come back.
\<close>

theorem truncated_header_one_byte:
  "Read Buffer_Read ([1, 0, 0, 0, 2, 97, 98] @ [2])
     = Some (Returns (([Object \<lparr>typ = 1, len = 2, val = [97, 98]\<rparr>], None), [])) \<and>
   Read Buffer_Read ([1, 0, 0, 0, 2, 97, 98] @ [])
     = Some (Returns (([Object \<lparr>typ = 1, len = 2, val = [97, 98]\<rparr>], None), [])) \<and>
   Read Buffer_Read ([1, 0, 0, 0, 2, 97, 98] @ [2, 0])
     = Some (Returns (([Object \<lparr>typ = 1, len = 2, val = [97, 98]\<rparr>], Some ErrUnexpectedEOF), []))"
proof -
  let ?tlv = "\<lparr>typ = 1, len = 2, val = [97, 98]\<rparr>"
  have i: "length_is_len ?tlv"
    by (simp add: length_is_len_def)
  have w: "wire ?tlv = [1, 0, 0, 0, 2, 97, 98]"
    by (simp add: wire_def PutUint32_def)
  have first: "ReadObject Buffer_Read ([1, 0, 0, 0, 2, 97, 98] @ rest) = Some (Returns (Inr ?tlv, rest))" for rest
    using ReadObject_Buffer_wire [OF i, of rest] by (simp add: w)
  have e0: "ReadObject Buffer_Read [] = Some (Returns (Inl (None, EOF), []))"
    by (rule ReadObject_Buffer_empty)
  have e1: "ReadObject Buffer_Read [2] = Some (Returns (Inl (None, EOF), []))"
    by (simp add: ReadObject_def ReadFull_Buffer_enough ReadFull_Buffer_empty)
  have e2: "ReadObject Buffer_Read [2, 0] = Some (Returns (Inl (None, ErrUnexpectedEOF), []))"
    by (simp add: ReadObject_def ReadFull_Buffer_enough ReadFull_Buffer_short)
  have loop: "Read Buffer_Read ([1, 0, 0, 0, 2, 97, 98] @ rest) = Read_loop Buffer_Read [Object ?tlv] rest" for rest
    unfolding Read_def NewList_def
    by (subst Read_loop.simps) (simp add: first [simplified])
  show ?thesis
    unfolding loop
    by (subst Read_loop.simps, subst (2) Read_loop.simps, subst (3) Read_loop.simps)
       (simp add: e0 e1 e2)
qed

text \<open>
  C4 (\<open>WriteObject\<close>). For every object that keeps the invariant and every writer:
  \<open>WriteObject\<close> offers the writer one byte, the type; then the four bytes of the
  length, big-endian, which decode to the length again; then the value, which has
  exactly length bytes; each write only after the one before returned no error, and
  nothing after the value. The first error of the writer is returned as it is; when
  the three writes return no error and the count reported for the value, between 0 and
  the number of value bytes, differs from the length, the result is \<open>ErrTLVWrite\<close>;
  otherwise it is nil. Into a buffer, the bytes appended are exactly type, length and
  value, in that order.
\<close>

theorem WriteObject_emits:
  assumes inv: "length_is_len tlv"
    and w1: "w s0 [typ tlv] = ((n1, e1), s1)"
    and w2: "w s1 (PutUint32 (len tlv)) = ((n2, e2), s2)"
    and w3: "w s2 (val tlv) = ((n3, e3), s3)"
    and n3: "0 \<le> n3" "n3 \<le> int (length (val tlv))"
  shows "WriteObject w tlv s0 =
           (case e1 of Some err \<Rightarrow> (Some err, s1) | None \<Rightarrow>
            (case e2 of Some err \<Rightarrow> (Some err, s2) | None \<Rightarrow>
             (case e3 of Some err \<Rightarrow> (Some err, s3) | None \<Rightarrow>
              (if n3 \<noteq> int (length (val tlv)) then (Some ErrTLVWrite, s3) else (None, s3))))) \<and>
         length [typ tlv] = 1 \<and>
         length (PutUint32 (len tlv)) = 4 \<and> Uint32 (PutUint32 (len tlv)) = Returns (len tlv) \<and>
         int (length (val tlv)) = sint (len tlv) \<and>
         WriteObject Buffer_Write tlv buf = (None, buf @ [typ tlv] @ PutUint32 (len tlv) @ val tlv)"
proof -
  have a: "WriteObject w tlv s0 =
           (case e1 of Some err \<Rightarrow> (Some err, s1) | None \<Rightarrow>
            (case e2 of Some err \<Rightarrow> (Some err, s2) | None \<Rightarrow>
             (case e3 of Some err \<Rightarrow> (Some err, s3) | None \<Rightarrow>
              (if n3 \<noteq> int (length (val tlv)) then (Some ErrTLVWrite, s3) else (None, s3)))))"
    by (auto simp add: WriteObject_def binary_Write_def w1 w2 w3 word_of_count [OF inv n3]
        word_of_length [OF inv] split: option.splits)
  have b: "length (PutUint32 (len tlv)) = 4"
    by (simp add: PutUint32_def)
  have c: "int (length (val tlv)) = sint (len tlv)"
    using inv by (simp add: length_is_len_def)
  have d: "WriteObject Buffer_Write tlv buf = (None, buf @ [typ tlv] @ PutUint32 (len tlv) @ val tlv)"
    using WriteObject_Buffer [OF inv, of buf] by (simp add: wire_def)
  from a b c d show ?thesis
    by (simp add: Uint32_PutUint32)
qed

theorem WriteObject_emits_witness:
  "length_is_len \<lparr>typ = 1, len = 2, val = [97, 98]\<rparr> \<and>
   (\<lambda>s p. ((int (min 1 (length p)), None), s @ take 1 p)) [] [1 :: byte] = ((1, None), [1]) \<and>
   (\<lambda>s p. ((int (min 1 (length p)), None), s @ take 1 p)) [1] [0, 0, 0, 2 :: byte] = ((1, None), [1, 0]) \<and>
   (\<lambda>s p. ((int (min 1 (length p)), None), s @ take 1 p)) [1, 0] [97, 98 :: byte] = ((1, None), [1, 0, 97]) \<and>
   WriteObject (\<lambda>s p. ((int (min 1 (length p)), None), s @ take 1 p))
     \<lparr>typ = 1, len = 2, val = [97, 98]\<rparr> [] = (Some ErrTLVWrite, [1, 0, 97]) \<and>
   WriteObject Buffer_Write \<lparr>typ = 1, len = 2, val = [97, 98]\<rparr> [] = (None, [1, 0, 0, 0, 2, 97, 98])"
proof -
  let ?tlv = "\<lparr>typ = 1, len = 2, val = [97, 98]\<rparr>"
  let ?w = "\<lambda>s p. ((int (min 1 (length p)), None :: error option), s @ take 1 p)"
  have i: "length_is_len ?tlv"
    by (simp add: length_is_len_def)
  have p: "PutUint32 2 = [0, 0, 0, 2]"
    by (simp add: PutUint32_def)
  have w1: "?w [] [typ ?tlv] = ((1, None), [1])" by simp
  have w2: "?w [1] (PutUint32 (len ?tlv)) = ((1, None), [1, 0])" by (simp add: p)
  have w3: "?w [1, 0] (val ?tlv) = ((1, None), [1, 0, 97])" by simp
  have n: "(0::int) \<le> 1" "1 \<le> int (length (val ?tlv))" by simp_all
  from WriteObject_emits [OF i w1 w2 w3 n, of "[]"] i show ?thesis
    by (simp add: p)
qed











text \<open>
  C9 (negative length). \<open>ReadObject\<close> does not check the decoded length: whenever the
  four length bytes decode to a negative signed 32-bit integer, it returns no error
  at all but panics in \<open>make\<close>. This holds for \<open>FromBytes\<close>, whatever follows the
  header, and for every reader from which the type byte and the four length bytes are
  read without error.
\<close>

theorem negative_length_panics:
  assumes "sint l < 0"
  shows "FromBytes (t # PutUint32 l @ rest) = Some Panics \<and>
         (ReadFull rd 1 r0 = Some (([t], None), r1) \<and>
          ReadFull rd 4 r1 = Some ((PutUint32 l, None), r2) \<longrightarrow>
            ReadObject rd r0 = Some Panics)"
proof -
  obtain a b c d where p: "PutUint32 l = [a, b, c, d]"
    using PutUint32_four by blast
  have u: "Uint32 [a, b, c, d] = Returns l"
    using Uint32_PutUint32 [of l] by (simp only: p)
  have g: "ReadObject rd' q0 = Some Panics"
    if "ReadFull rd' 1 q0 = Some (([t], None), q1)"
       "ReadFull rd' 4 q1 = Some (([a, b, c, d], None), q2)"
    for rd' :: "'b reader" and q0 q1 q2
    unfolding ReadObject_def that(1)
    using u assms by (simp add: that(2) [simplified] make_bytes_def)
  have r1: "ReadFull Buffer_Read 1 (t # [a, b, c, d] @ rest) = Some (([t], None), [a, b, c, d] @ rest)"
    by (simp add: ReadFull_Buffer_enough)
  have r4: "ReadFull Buffer_Read 4 ([a, b, c, d] @ rest) = Some (([a, b, c, d], None), rest)"
    by (simp add: ReadFull_Buffer_enough)
  have "ReadObject Buffer_Read (t # [a, b, c, d] @ rest) = Some Panics"
    by (rule g [OF r1 r4])
  then have f: "FromBytes (t # PutUint32 l @ rest) = Some Panics"
    by (simp add: FromBytes_def p)
  have h: "ReadObject rd r0 = Some Panics"
    if "ReadFull rd 1 r0 = Some (([t], None), r1)"
       "ReadFull rd 4 r1 = Some ((PutUint32 l, None), r2)"
    using that by (simp only: p g)
  from f h show ?thesis by blast
qed

theorem negative_length_panics_witness:
  "sint (4294967295 :: int32) < 0 \<and>
   ReadFull Buffer_Read 1 [7, 255, 255, 255, 255] = Some (([7], None), [255, 255, 255, 255]) \<and>
   ReadFull Buffer_Read 4 [255, 255, 255, 255] = Some (([255, 255, 255, 255], None), []) \<and>
   ReadObject Buffer_Read [7, 255, 255, 255, 255] = (Some Panics :: (read_result \<times> byte list) outcome option) \<and>
   FromBytes [7, 255, 255, 255, 255] = Some Panics"
proof -
  have h: "sint (4294967295 :: int32) < 0" by simp
  have p: "PutUint32 4294967295 = [255, 255, 255, 255]"
    by (simp add: PutUint32_def)
  have r1: "ReadFull Buffer_Read 1 [7, 255, 255, 255, 255] = Some (([7], None), [255, 255, 255, 255])"
    by (simp add: ReadFull_Buffer_enough)
  have r4: "ReadFull Buffer_Read 4 [255, 255, 255, 255] = Some (([255, 255, 255, 255], None), [])"
    by (simp add: ReadFull_Buffer_enough)
  from negative_length_panics [OF h, of 7 "[]" Buffer_Read "[7, 255, 255, 255, 255]"
      "[255, 255, 255, 255]" "[]"] h r1 r4
  show ?thesis
    by (simp add: p)
qed

text \<open>
  C10 (encoding in memory cannot fail). For every object that keeps the invariant,
  \<open>ToBytes\<close> returns its wire form and a nil error; every object returned by \<open>New\<close>
  and every object that \<open>ReadObject\<close> returns without error, from any reader, keeps
  the invariant.
\<close>

theorem ToBytes_no_error:
  "(length_is_len tlv \<longrightarrow> ToBytes tlv = (wire tlv, None)) \<and>
   (New t v = Returns tlv \<longrightarrow> length_is_len tlv) \<and>
   (ReadObject rd r = Some (Returns (Inr tlv, r')) \<longrightarrow> length_is_len tlv)"
  by (auto simp add: ToBytes_wire New_length_is_len ReadObject_length_is_len)

theorem ToBytes_no_error_witness:
  "length_is_len \<lparr>typ = 1, len = 2, val = [97, 98]\<rparr> \<and>
   New 1 [97, 98] = Returns \<lparr>typ = 1, len = 2, val = [97, 98]\<rparr> \<and>
   ReadObject Buffer_Read [1, 0, 0, 0, 2, 97, 98]
     = Some (Returns (Inr \<lparr>typ = 1, len = 2, val = [97, 98]\<rparr>, [])) \<and>
   ToBytes \<lparr>typ = 1, len = 2, val = [97, 98]\<rparr> = ([1, 0, 0, 0, 2, 97, 98], None)"
proof -
  let ?tlv = "\<lparr>typ = 1, len = 2, val = [97, 98]\<rparr>"
  have i: "length_is_len ?tlv"
    by (simp add: length_is_len_def)
  have n: "New 1 [97, 98] = Returns ?tlv"
    by (simp add: New_def make_bytes_def copy_bytes_def)
  have w: "wire ?tlv = [1, 0, 0, 0, 2, 97, 98]"
    by (simp add: wire_def PutUint32_def)
  have r: "ReadObject Buffer_Read [1, 0, 0, 0, 2, 97, 98] = Some (Returns (Inr ?tlv, []))"
    using ReadObject_Buffer_wire [OF i, of "[]"] by (simp add: w)
  from ToBytes_no_error [of ?tlv 1 "[97, 98]" Buffer_Read "[1, 0, 0, 0, 2, 97, 98]" "[]"] i n r
  show ?thesis by (simp add: w)
qed

end
